theory Spec2Isabelle
  imports Main
begin

section \<open>Data model of the plan store (src/src/database.ts)\<close>

text \<open>
  The store keeps two SQLite tables, \<open>plans\<close> and \<open>steps\<close>. A table is modelled as the
  list of its rows in insertion (rowid) order; a row is a record with the columns of the
  \<^verbatim>\<open>CREATE TABLE\<close> statement. Identifiers, names and timestamps are strings, the
  \<open>step_order\<close> column is an integer, and a nullable TEXT column is a \<open>string option\<close>.
  The fields of \<open>PlanRow\<close> and \<open>StepRow\<close> that share a column name (\<open>id\<close>,
  \<open>description\<close>, \<open>created_at\<close>) carry the prefix \<open>p_\<close> or \<open>s_\<close>. The row-shape guards
  \<open>isPlan\<close> and \<open>isStep\<close> of the source hold of every row of these types, so the
  rejections they guard (\<^verbatim>\<open>Invalid step data from database\<close> and the like) have no
  branch in the model; failures of the storage itself (I/O, a locked file) are not modelled.
\<close>

datatype status = in_progress | completed | failed

record PlanRow =
  p_id :: string
  p_name :: string
  p_description :: string
  p_created_at :: string
  active_step_id :: "string option"

record StepRow =
  s_id :: string
  plan_id :: string
  s_description :: string
  completion_condition :: string
  status :: status
  completion_context :: "string option"
  step_order :: int
  s_created_at :: string

text \<open>
  Errors are values. \<open>SqliteError\<close> carries the result code of a statement the engine
  rejected; \<open>JsError\<close> carries the message of a \<^verbatim>\<open>new Error(...)\<close> of the source.
\<close>

datatype error = SqliteError string | JsError string

text \<open>
  The connection held by \<open>PlannerDatabase\<close>: the two tables, the snapshot taken by an open
  \<^verbatim>\<open>BEGIN TRANSACTION\<close> (\<open>None\<close> when the connection is idle), and the engine's
  \<open>foreign_keys\<close> switch. SQLite checks a \<^verbatim>\<open>FOREIGN KEY\<close> clause only on a
  connection that has run \<^verbatim>\<open>PRAGMA foreign_keys = ON\<close>.
\<close>

record PlannerDatabase =
  plans :: "PlanRow list"
  steps :: "StepRow list"
  txn :: "(PlanRow list \<times> StepRow list) option"
  foreign_keys :: bool

text \<open>
  The constructor opens the file and runs \<open>initializeDatabase\<close>: on a fresh file both tables
  are created empty. The source never issues the pragma, so the switch keeps the engine's
  default, off.
\<close>

definition initializeDatabase :: PlannerDatabase where
  "initializeDatabase = \<lparr>plans = [], steps = [], txn = None, foreign_keys = False\<rparr>"

section \<open>Transactions\<close>

definition beginTransaction :: "PlannerDatabase \<Rightarrow> error + PlannerDatabase" where
  "beginTransaction db =
     (case txn db of
        Some _ \<Rightarrow> Inl (SqliteError ''SQLITE_ERROR'')
      | None \<Rightarrow> Inr (db\<lparr>txn := Some (plans db, steps db)\<rparr>))"

definition commitTransaction :: "PlannerDatabase \<Rightarrow> error + PlannerDatabase" where
  "commitTransaction db =
     (case txn db of
        None \<Rightarrow> Inl (SqliteError ''SQLITE_ERROR'')
      | Some _ \<Rightarrow> Inr (db\<lparr>txn := None\<rparr>))"

definition rollbackTransaction :: "PlannerDatabase \<Rightarrow> error + PlannerDatabase" where
  "rollbackTransaction db =
     (case txn db of
        None \<Rightarrow> Inl (SqliteError ''SQLITE_ERROR'')
      | Some (ps, ss) \<Rightarrow> Inr (db\<lparr>plans := ps, steps := ss, txn := None\<rparr>))"

text \<open>
  The handler \<^verbatim>\<open>catch (error) { await this.rollbackTransaction(); throw error; }\<close>
  shared by \<open>createStep\<close>, \<open>completeStep\<close> and \<open>failStep\<close>: \<open>db\<close> is the connection at
  the moment the error was raised. When the rollback itself is rejected, its error is the
  one thrown.
\<close>

definition catch_rollback :: "PlannerDatabase \<Rightarrow> error \<Rightarrow> (error + 'a) \<times> PlannerDatabase" where
  "catch_rollback db e =
     (case rollbackTransaction db of
        Inl e' \<Rightarrow> (Inl e', db)
      | Inr db' \<Rightarrow> (Inl e, db'))"

section \<open>Statements\<close>

text \<open>SQL \<^verbatim>\<open>MAX\<close> over no rows is NULL; \<^verbatim>\<open>COALESCE(x, d)\<close> replaces NULL by \<open>d\<close>.\<close>

fun sql_max :: "int list \<Rightarrow> int option" where
  "sql_max [] = None"
| "sql_max (x # xs) = Some (fold max xs x)"

definition coalesce :: "int option \<Rightarrow> int \<Rightarrow> int" where
  "coalesce v d = (case v of None \<Rightarrow> d | Some x \<Rightarrow> x)"

text \<open>\<^verbatim>\<open>ORDER BY step_order ASC LIMIT 1\<close>: the first row of the stably sorted result.\<close>

definition order_by_step_order_limit1 :: "StepRow list \<Rightarrow> StepRow option" where
  "order_by_step_order_limit1 rows =
     (case sort_key step_order rows of [] \<Rightarrow> None | r # _ \<Rightarrow> Some r)"

text \<open>The JavaScript expression \<^verbatim>\<open>x || null\<close> on a \<^verbatim>\<open>string | null\<close>: the empty string is falsy.\<close>

definition or_null :: "string option \<Rightarrow> string option" where
  "or_null x = (case x of None \<Rightarrow> None | Some s \<Rightarrow> if s = [] then None else Some s)"

text \<open>
  \<open>insertStep\<close>: one INSERT whose \<open>step_order\<close> is
  \<^verbatim>\<open>(SELECT COALESCE(MAX(step_order), 0) + 1 FROM steps WHERE plan_id = ?)\<close>. The status
  column takes its default \<open>in_progress\<close> and \<open>created_at\<close> the clock reading \<open>now\<close>.
  The statement is rejected when the primary key \<open>id\<close> is already present, and, on a
  connection with \<open>foreign_keys\<close> on, when no plan has the given id.
\<close>

definition insertStep ::
  "PlannerDatabase \<Rightarrow> string \<Rightarrow> string \<Rightarrow> string \<Rightarrow> string \<Rightarrow> string option \<Rightarrow> string
     \<Rightarrow> error + PlannerDatabase" where
  "insertStep db stepId planId description completionCondition completionContext now =
     (if stepId \<in> set (map s_id (steps db)) then Inl (SqliteError ''SQLITE_CONSTRAINT'')
      else if foreign_keys db \<and> planId \<notin> set (map p_id (plans db))
        then Inl (SqliteError ''SQLITE_CONSTRAINT'')
      else Inr (db\<lparr>steps := steps db @
        [\<lparr>s_id = stepId, plan_id = planId, s_description = description,
          completion_condition = completionCondition, status = in_progress,
          completion_context = completionContext,
          step_order =
            coalesce (sql_max (map step_order (filter (\<lambda>s. plan_id s = planId) (steps db)))) 0 + 1,
          s_created_at = now\<rparr>]\<rparr>))"

definition setActiveStep :: "PlannerDatabase \<Rightarrow> string \<Rightarrow> string option \<Rightarrow> PlannerDatabase" where
  "setActiveStep db planId stepId =
     db\<lparr>plans := map (\<lambda>p. if p_id p = planId then p\<lparr>active_step_id := or_null stepId\<rparr> else p)
                     (plans db)\<rparr>"

definition getStepCount :: "PlannerDatabase \<Rightarrow> string \<Rightarrow> nat" where
  "getStepCount db planId = length (filter (\<lambda>s. plan_id s = planId) (steps db))"

text \<open>\<^verbatim>\<open>SELECT * FROM steps WHERE id = ?\<close>, the read-back of \<open>createStep\<close> and \<open>failStep\<close>.\<close>

definition selectStep :: "PlannerDatabase \<Rightarrow> string \<Rightarrow> StepRow option" where
  "selectStep db stepId = find (\<lambda>s. s_id s = stepId) (steps db)"

definition getPlanForStep :: "PlannerDatabase \<Rightarrow> string \<Rightarrow> error + string" where
  "getPlanForStep db stepId =
     (case find (\<lambda>s. s_id s = stepId) (steps db) of
        None \<Rightarrow> Inl (JsError ''Invalid plan ID for step'')
      | Some row \<Rightarrow> Inr (plan_id row))"

text \<open>
  \<open>getNextStep\<close>: the comparison with the scalar subquery
  \<^verbatim>\<open>(SELECT step_order FROM steps WHERE id = ?)\<close> is NULL, hence selects no row, when
  the current step does not exist.
\<close>

definition getNextStep :: "PlannerDatabase \<Rightarrow> string \<Rightarrow> string \<Rightarrow> StepRow option" where
  "getNextStep db planId currentStepId =
     (case find (\<lambda>s. s_id s = currentStepId) (steps db) of
        None \<Rightarrow> None
      | Some cur \<Rightarrow>
          order_by_step_order_limit1
            (filter (\<lambda>s. plan_id s = planId \<and> status s = in_progress
                          \<and> step_order s > step_order cur) (steps db)))"

definition markStepCompleted :: "PlannerDatabase \<Rightarrow> string \<Rightarrow> string \<Rightarrow> PlannerDatabase" where
  "markStepCompleted db stepId completionContext =
     db\<lparr>steps := map (\<lambda>s. if s_id s = stepId
                            then s\<lparr>status := completed, completion_context := Some completionContext\<rparr>
                            else s) (steps db)\<rparr>"

section \<open>Operations\<close>

text \<open>
  \<open>generateReadableId()\<close> draws a random three-word slug; the drawn identifier is an
  argument of the model (\<open>newId\<close>, \<open>stepId\<close>, \<open>newStepId\<close>), as is the clock reading
  \<open>now\<close> stored in \<open>created_at\<close>. Every operation returns its outcome together with
  the connection it leaves behind.
\<close>

definition createPlan ::
  "PlannerDatabase \<Rightarrow> string \<Rightarrow> string \<Rightarrow> string \<Rightarrow> string \<Rightarrow> (error + PlanRow) \<times> PlannerDatabase" where
  "createPlan db newId name description now =
     (if newId \<in> set (map p_id (plans db)) then (Inl (SqliteError ''SQLITE_CONSTRAINT''), db)
      else
        (let db1 = db\<lparr>plans := plans db @
               [\<lparr>p_id = newId, p_name = name, p_description = description,
                 p_created_at = now, active_step_id = None\<rparr>]\<rparr>
         in case find (\<lambda>p. p_id p = newId) (plans db1) of
              None \<Rightarrow> (Inl (JsError ''Failed to retrieve created plan''), db1)
            | Some row \<Rightarrow> (Inr row, db1)))"

definition getPlan :: "PlannerDatabase \<Rightarrow> string \<Rightarrow> PlanRow option" where
  "getPlan db planId = find (\<lambda>p. p_id p = planId) (plans db)"

definition createStep ::
  "PlannerDatabase \<Rightarrow> string \<Rightarrow> string \<Rightarrow> string \<Rightarrow> string \<Rightarrow> string option \<Rightarrow> string
     \<Rightarrow> (error + StepRow) \<times> PlannerDatabase" where
  "createStep db stepId planId description completionCondition completionContext now =
     (case beginTransaction db of
        Inl e \<Rightarrow> catch_rollback db e
      | Inr db0 \<Rightarrow>
         (case insertStep db0 stepId planId description completionCondition completionContext now of
            Inl e \<Rightarrow> catch_rollback db0 e
          | Inr db1 \<Rightarrow>
             (let stepCount = getStepCount db1 planId;
                  db2 = (if stepCount = 1 then setActiveStep db1 planId (Some stepId) else db1)
              in case selectStep db2 stepId of
                   None \<Rightarrow> catch_rollback db2 (JsError ''Failed to retrieve created step'')
                 | Some row \<Rightarrow>
                    (case commitTransaction db2 of
                       Inl e \<Rightarrow> catch_rollback db2 e
                     | Inr db3 \<Rightarrow> (Inr row, db3)))))"

definition getActiveStep :: "PlannerDatabase \<Rightarrow> string \<Rightarrow> StepRow option" where
  "getActiveStep db planId =
     order_by_step_order_limit1
       (filter (\<lambda>s. plan_id s = planId \<and> status s = in_progress) (steps db))"

text \<open>
  \<open>completeStep\<close> passes \<^verbatim>\<open>nextStep?.id || null\<close> to \<open>setActiveStep\<close>, which applies
  \<^verbatim>\<open>|| null\<close> once more.
\<close>

definition completeStep ::
  "PlannerDatabase \<Rightarrow> string \<Rightarrow> string \<Rightarrow> (error + StepRow option) \<times> PlannerDatabase" where
  "completeStep db stepId completionContext =
     (case beginTransaction db of
        Inl e \<Rightarrow> catch_rollback db e
      | Inr db0 \<Rightarrow>
         (let db1 = markStepCompleted db0 stepId completionContext
          in case getPlanForStep db1 stepId of
               Inl e \<Rightarrow> catch_rollback db1 e
             | Inr planId \<Rightarrow>
                (let nextStep = getNextStep db1 planId stepId;
                     db2 = setActiveStep db1 planId (or_null (map_option s_id nextStep))
                 in case commitTransaction db2 of
                      Inl e \<Rightarrow> catch_rollback db2 e
                    | Inr db3 \<Rightarrow> (Inr nextStep, db3))))"

text \<open>
  The first statement of \<open>failStep\<close> reads the step joined with its plan's
  \<open>active_step_id\<close>; both ids are primary keys, so the join has at most one row. Its
  callback rejects in the order of the source: no row, not the active step, not in progress.
\<close>

definition loadStepToFail :: "PlannerDatabase \<Rightarrow> string \<Rightarrow> error + StepRow" where
  "loadStepToFail db stepId =
     (case find (\<lambda>s. s_id s = stepId) (steps db) of
        None \<Rightarrow> Inl (JsError ''Step not found'')
      | Some row \<Rightarrow>
         (case find (\<lambda>p. p_id p = plan_id row) (plans db) of
            None \<Rightarrow> Inl (JsError ''Step not found'')
          | Some p \<Rightarrow>
             if active_step_id p \<noteq> Some stepId
               then Inl (JsError ''Can only fail the current active step'')
             else if status row \<noteq> in_progress
               then Inl (JsError ''Can only fail steps that are in progress'')
             else Inr row))"

definition markStepFailed :: "PlannerDatabase \<Rightarrow> string \<Rightarrow> PlannerDatabase" where
  "markStepFailed db stepId =
     db\<lparr>steps := map (\<lambda>s. if s_id s = stepId then s\<lparr>status := failed\<rparr> else s) (steps db)\<rparr>"

definition shiftSubsequentSteps :: "PlannerDatabase \<Rightarrow> string \<Rightarrow> int \<Rightarrow> PlannerDatabase" where
  "shiftSubsequentSteps db planId ord =
     db\<lparr>steps := map (\<lambda>s. if plan_id s = planId \<and> step_order s > ord
                            then s\<lparr>step_order := step_order s + 1\<rparr> else s) (steps db)\<rparr>"

definition failStep ::
  "PlannerDatabase \<Rightarrow> string \<Rightarrow> string \<Rightarrow> string \<Rightarrow> string \<Rightarrow> string
     \<Rightarrow> (error + string \<times> StepRow) \<times> PlannerDatabase" where
  "failStep db stepId newStepDescription newStepCompletionCondition newStepId now =
     (case beginTransaction db of
        Inl e \<Rightarrow> catch_rollback db e
      | Inr db0 \<Rightarrow>
         (case loadStepToFail db0 stepId of
            Inl e \<Rightarrow> catch_rollback db0 e
          | Inr failedStep \<Rightarrow>
             (let db1 = markStepFailed db0 stepId;
                  db2 = shiftSubsequentSteps db1 (plan_id failedStep) (step_order failedStep)
              in case insertStep db2 newStepId (plan_id failedStep) newStepDescription
                        newStepCompletionCondition None now of
                   Inl e \<Rightarrow> catch_rollback db2 e
                 | Inr db3 \<Rightarrow>
                    (let db4 = setActiveStep db3 (plan_id failedStep) (Some newStepId)
                     in case selectStep db4 newStepId of
                          None \<Rightarrow> catch_rollback db4 (JsError ''Failed to retrieve created step'')
                        | Some row \<Rightarrow>
                           (case commitTransaction db4 of
                              Inl e \<Rightarrow> catch_rollback db4 e
                            | Inr db5 \<Rightarrow> (Inr (stepId, row), db5))))))"

definition listSteps :: "PlannerDatabase \<Rightarrow> string \<Rightarrow> StepRow list" where
  "listSteps db planId = sort_key step_order (filter (\<lambda>s. plan_id s = planId) (steps db))"

section \<open>Error kinds, call sequences and example stores\<close>

text \<open>
  The source raises plain \<^verbatim>\<open>Error\<close> objects. The specification's kind
  \<open>PreconditionError\<close> names the three rejections of the first statement of \<open>failStep\<close>:
  the step does not exist, it is not the active step, it is not in progress.
\<close>

definition PreconditionError :: "error \<Rightarrow> bool" where
  "PreconditionError e \<longleftrightarrow>
     e = JsError ''Step not found'' \<or>
     e = JsError ''Can only fail the current active step'' \<or>
     e = JsError ''Can only fail steps that are in progress''"

text \<open>
  A caller that creates steps for one plan one after the other, awaiting each call, and stops
  at the first rejection. Each argument tuple is (drawn id, description, completion condition,
  completion context, clock reading).
\<close>

fun createSteps ::
  "PlannerDatabase \<Rightarrow> string \<Rightarrow> (string \<times> string \<times> string \<times> string option \<times> string) list
     \<Rightarrow> (error + StepRow list) \<times> PlannerDatabase" where
  "createSteps db planId [] = (Inr [], db)"
| "createSteps db planId ((stepId, description, completionCondition, completionContext, now) # rest) =
     (case createStep db stepId planId description completionCondition completionContext now of
        (Inl e, db') \<Rightarrow> (Inl e, db')
      | (Inr row, db') \<Rightarrow>
         (case createSteps db' planId rest of
            (Inl e, db'') \<Rightarrow> (Inl e, db'')
          | (Inr rows, db'') \<Rightarrow> (Inr (row # rows), db'')))"

text \<open>
  Stores reached from a fresh database by the public operations: one plan \<open>p\<close>; the plan with
  two steps \<open>a\<close> (active) and \<open>b\<close>; the same after \<open>a\<close> has been failed and replaced by \<open>r\<close>.
\<close>

definition one_plan :: PlannerDatabase where
  "one_plan = snd (createPlan initializeDatabase ''p'' ''plan'' ''a plan'' ''t0'')"

definition two_steps :: PlannerDatabase where
  "two_steps =
     snd (createStep (snd (createStep one_plan ''a'' ''p'' ''first'' ''ca'' None ''t1''))
            ''b'' ''p'' ''second'' ''cb'' None ''t2'')"

definition after_fail :: PlannerDatabase where
  "after_fail = snd (failStep two_steps ''a'' ''retry'' ''cr'' ''r'' ''t3'')"


definition two_plans :: PlannerDatabase where
  "two_plans = snd (createPlan two_steps ''q'' ''other'' ''another plan'' ''t3'')"

text \<open>
  The persisted state of a connection: the tables as of the last COMMIT. With no open
  transaction every statement commits on its own, so these are the tables themselves; inside
  a transaction they are the snapshot taken by BEGIN.
\<close>

definition committed :: "PlannerDatabase \<Rightarrow> PlanRow list \<times> StepRow list" where
  "committed db = (case txn db of None \<Rightarrow> (plans db, steps db) | Some snapshot \<Rightarrow> snapshot)"

section \<open>Evaluating the example stores\<close>

lemmas store_defs =
  initializeDatabase_def beginTransaction_def commitTransaction_def rollbackTransaction_def
  catch_rollback_def coalesce_def order_by_step_order_limit1_def or_null_def insertStep_def
  setActiveStep_def getStepCount_def selectStep_def getPlanForStep_def getNextStep_def
  markStepCompleted_def createPlan_def getPlan_def createStep_def getActiveStep_def
  completeStep_def loadStepToFail_def markStepFailed_def shiftSubsequentSteps_def failStep_def
  listSteps_def

lemma one_plan_eval:
  "one_plan = \<lparr>plans = [\<lparr>p_id = ''p'', p_name = ''plan'', p_description = ''a plan'',
                           p_created_at = ''t0'', active_step_id = None\<rparr>],
               steps = [], txn = None, foreign_keys = False\<rparr>"
  by (simp add: one_plan_def store_defs)

lemma two_steps_eval:
  "two_steps =
     \<lparr>plans = [\<lparr>p_id = ''p'', p_name = ''plan'', p_description = ''a plan'',
                 p_created_at = ''t0'', active_step_id = Some ''a''\<rparr>],
      steps = [\<lparr>s_id = ''a'', plan_id = ''p'', s_description = ''first'',
                 completion_condition = ''ca'', status = in_progress,
                 completion_context = None, step_order = 1, s_created_at = ''t1''\<rparr>,
               \<lparr>s_id = ''b'', plan_id = ''p'', s_description = ''second'',
                 completion_condition = ''cb'', status = in_progress,
                 completion_context = None, step_order = 2, s_created_at = ''t2''\<rparr>],
      txn = None, foreign_keys = False\<rparr>"
  by (simp add: two_steps_def one_plan_eval store_defs)

lemma one_plan_idle: "txn one_plan = None"
  by (simp add: one_plan_eval)

lemma two_steps_idle: "txn two_steps = None"
  by (simp add: two_steps_eval)


lemma two_plans_eval:
  "two_plans =
     \<lparr>plans = [\<lparr>p_id = ''p'', p_name = ''plan'', p_description = ''a plan'',
                 p_created_at = ''t0'', active_step_id = Some ''a''\<rparr>,
               \<lparr>p_id = ''q'', p_name = ''other'', p_description = ''another plan'',
                 p_created_at = ''t3'', active_step_id = None\<rparr>],
      steps = [\<lparr>s_id = ''a'', plan_id = ''p'', s_description = ''first'',
                 completion_condition = ''ca'', status = in_progress,
                 completion_context = None, step_order = 1, s_created_at = ''t1''\<rparr>,
               \<lparr>s_id = ''b'', plan_id = ''p'', s_description = ''second'',
                 completion_condition = ''cb'', status = in_progress,
                 completion_context = None, step_order = 2, s_created_at = ''t2''\<rparr>],
      txn = None, foreign_keys = False\<rparr>"
  by (simp add: two_plans_def two_steps_eval store_defs)

lemma two_plans_idle: "txn two_plans = None"
  by (simp add: two_plans_eval)

section \<open>Transactions on an idle connection\<close>

text \<open>
  On a connection with no open transaction, BEGIN takes the snapshot, every statement of the
  body leaves it alone, COMMIT drops it and ROLLBACK restores it. The three transactional
  operations then have the following closed forms.
\<close>

lemma restore_idle:
  "txn db = None \<Longrightarrow> foreign_keys d = foreign_keys db \<Longrightarrow>
   d\<lparr>plans := plans db, steps := steps db, txn := None\<rparr> = (db::PlannerDatabase)"
  by (cases db, cases d) auto

lemma commit_open:
  "txn d = Some sn \<Longrightarrow> commitTransaction d = Inr (d\<lparr>txn := None\<rparr>)"
  by (simp add: commitTransaction_def)

lemma catch_rollback_open:
  "txn d = Some (ps, ss) \<Longrightarrow>
     catch_rollback d e = (Inl e, d\<lparr>plans := ps, steps := ss, txn := None\<rparr>)"
  by (simp add: catch_rollback_def rollbackTransaction_def)

lemma find_append_new:
  "find P (xs @ ys) = (case find P xs of None \<Rightarrow> find P ys | Some x \<Rightarrow> Some x)"
  by (induction xs) auto

lemma find_fresh:
  "i \<notin> set (map s_id xs) \<Longrightarrow> find (\<lambda>s. s_id s = i) xs = None"
  by (auto simp: find_None_iff)

lemma insertStep_in_txn:
  "insertStep (db\<lparr>txn := t\<rparr>) i p de cc cx now =
     map_sum id (\<lambda>d. d\<lparr>txn := t\<rparr>) (insertStep db i p de cc cx now)"
  by (simp add: insertStep_def)

lemma insertStep_frame:
  "insertStep d i p de cc cx now = Inr d' \<Longrightarrow>
     txn d' = txn d \<and> foreign_keys d' = foreign_keys d \<and> plans d' = plans d"
  by (auto simp: insertStep_def split: if_splits)

lemma insertStep_select:
  "insertStep d i p de cc cx now = Inr d' \<Longrightarrow>
     selectStep d' i = Some \<lparr>s_id = i, plan_id = p, s_description = de,
          completion_condition = cc, status = in_progress, completion_context = cx,
          step_order =
            coalesce (sql_max (map step_order (filter (\<lambda>s. plan_id s = p) (steps d)))) 0 + 1,
          s_created_at = now\<rparr>"
  by (auto simp: insertStep_def selectStep_def find_append_new find_fresh split: if_splits)

lemma createStep_idle:
  assumes "txn db = None"
  shows "createStep db stepId planId de cc cx now =
    (case insertStep db stepId planId de cc cx now of
       Inl e \<Rightarrow> (Inl e, db)
     | Inr db1 \<Rightarrow>
        (case selectStep db1 stepId of
           None \<Rightarrow> (Inl (JsError ''Failed to retrieve created step''), db)
         | Some row \<Rightarrow>
            (Inr row, if getStepCount db1 planId = 1
                      then setActiveStep db1 planId (Some stepId) else db1)))"
proof -
  let ?db0 = "db\<lparr>txn := Some (plans db, steps db)\<rparr>"
  have b: "beginTransaction db = Inr ?db0"
    using assms by (simp add: beginTransaction_def)
  show ?thesis
  proof (cases "insertStep db stepId planId de cc cx now")
    case (Inl e)
    then show ?thesis using assms
      by (simp add: createStep_def b insertStep_in_txn catch_rollback_open restore_idle)
  next
    case (Inr db1)
    have fr: "txn db1 = None" "foreign_keys db1 = foreign_keys db"
      using insertStep_frame[OF Inr] assms by simp_all
    have r: "db1\<lparr>txn := None\<rparr> = db1" using fr by simp
    show ?thesis using assms Inr fr r
      by (simp add: createStep_def b insertStep_in_txn Let_def selectStep_def getStepCount_def
          setActiveStep_def catch_rollback_open commit_open restore_idle split: option.splits)
  qed
qed

lemma completeStep_idle:
  assumes "txn db = None"
  shows "completeStep db stepId cx =
    (let db1 = markStepCompleted db stepId cx in
     case getPlanForStep db1 stepId of
       Inl e \<Rightarrow> (Inl e, db)
     | Inr planId \<Rightarrow>
        (let nextStep = getNextStep db1 planId stepId
         in (Inr nextStep, setActiveStep db1 planId (or_null (map_option s_id nextStep)))))"
proof -
  let ?db0 = "db\<lparr>txn := Some (plans db, steps db)\<rparr>"
  have b: "beginTransaction db = Inr ?db0"
    using assms by (simp add: beginTransaction_def)
  have m: "markStepCompleted ?db0 stepId cx =
             (markStepCompleted db stepId cx)\<lparr>txn := Some (plans db, steps db)\<rparr>"
    by (simp add: markStepCompleted_def)
  have t: "txn (markStepCompleted db stepId cx) = None"
    "foreign_keys (markStepCompleted db stepId cx) = foreign_keys db"
    using assms by (simp_all add: markStepCompleted_def)
  have r: "\<And>d::PlannerDatabase. txn d = None \<Longrightarrow> d\<lparr>txn := None\<rparr> = d" by simp
  show ?thesis using assms t
    by (simp add: completeStep_def b m Let_def getPlanForStep_def getNextStep_def r
          setActiveStep_def catch_rollback_open commit_open restore_idle
          split: option.splits sum.splits)
qed

lemma loadStepToFail_in_txn: "loadStepToFail (db\<lparr>txn := t\<rparr>) stepId = loadStepToFail db stepId"
  by (simp add: loadStepToFail_def split: option.splits)

lemma failStep_idle:
  assumes "txn db = None"
  shows "failStep db stepId de cc newStepId now =
    (case loadStepToFail db stepId of
       Inl e \<Rightarrow> (Inl e, db)
     | Inr failedStep \<Rightarrow>
        (case insertStep (shiftSubsequentSteps (markStepFailed db stepId)
                            (plan_id failedStep) (step_order failedStep))
                newStepId (plan_id failedStep) de cc None now of
           Inl e \<Rightarrow> (Inl e, db)
         | Inr db3 \<Rightarrow>
            (case selectStep db3 newStepId of
               None \<Rightarrow> (Inl (JsError ''Failed to retrieve created step''), db)
             | Some row \<Rightarrow>
                (Inr (stepId, row), setActiveStep db3 (plan_id failedStep) (Some newStepId)))))"
proof -
  let ?db0 = "db\<lparr>txn := Some (plans db, steps db)\<rparr>"
  have b: "beginTransaction db = Inr ?db0"
    using assms by (simp add: beginTransaction_def)
  show ?thesis
  proof (cases "loadStepToFail db stepId")
    case (Inl e)
    then show ?thesis using assms
      by (simp add: failStep_def b loadStepToFail_in_txn catch_rollback_open restore_idle)
  next
    case (Inr fs)
    let ?db2 = "shiftSubsequentSteps (markStepFailed db stepId) (plan_id fs) (step_order fs)"
    have sh: "shiftSubsequentSteps (markStepFailed ?db0 stepId) (plan_id fs) (step_order fs)
               = ?db2\<lparr>txn := Some (plans db, steps db)\<rparr>"
      by (simp add: shiftSubsequentSteps_def markStepFailed_def)
    have t2: "txn ?db2 = None" "foreign_keys ?db2 = foreign_keys db"
      using assms by (simp_all add: shiftSubsequentSteps_def markStepFailed_def)
    show ?thesis
    proof (cases "insertStep ?db2 newStepId (plan_id fs) de cc None now")
      case (Inl e)
      then show ?thesis using assms Inr t2
        by (simp add: failStep_def b loadStepToFail_in_txn Let_def sh insertStep_in_txn
              catch_rollback_open restore_idle)
    next
      case ins: (Inr db3)
      have fr: "txn db3 = None" "foreign_keys db3 = foreign_keys db"
        using insertStep_frame[OF ins] t2 by simp_all
      have r: "db3\<lparr>txn := None\<rparr> = db3" using fr by simp
      show ?thesis using assms Inr ins fr r
        by (simp add: failStep_def b loadStepToFail_in_txn Let_def sh insertStep_in_txn
              selectStep_def setActiveStep_def catch_rollback_open commit_open restore_idle
              split: option.splits)
    qed
  qed
qed

section \<open>Rollback on error\<close>








lemma committed_idle: "txn db = None \<Longrightarrow> committed db = (plans db, steps db)"
  by (simp add: committed_def)







section \<open>Completing a step that does not exist\<close>

lemma markStepCompleted_no_match:
  assumes "stepId \<notin> set (map s_id (steps db))"
  shows "markStepCompleted db stepId cx = db"
proof -
  have "map (\<lambda>s. if s_id s = stepId
                   then s\<lparr>status := completed, completion_context := Some cx\<rparr> else s)
          (steps db) = steps db"
    using assms by (intro map_idI) auto
  then show ?thesis by (simp add: markStepCompleted_def)
qed

text \<open>
  C10. When no step has the id \<open>stepId\<close>, \<open>completeStep\<close> raises the error of the
  owning-plan lookup, \<^verbatim>\<open>Invalid plan ID for step\<close>, and leaves the store as it was, whereas
  \<open>getPlan\<close> answers a missing plan with absent.
\<close>

theorem completeStep_unknown_step_rejected:
  assumes "txn db = None" and "stepId \<notin> set (map s_id (steps db))"
  shows "completeStep db stepId completionContext
           = (Inl (JsError ''Invalid plan ID for step''), db) \<and>
         (planId \<notin> set (map p_id (plans db)) \<longrightarrow> getPlan db planId = None)"
proof -
  have "find (\<lambda>s. s_id s = stepId) (steps db) = None"
    using assms(2) by (rule find_fresh)
  then have "completeStep db stepId completionContext
               = (Inl (JsError ''Invalid plan ID for step''), db)"
    using assms by (simp add: completeStep_idle markStepCompleted_no_match getPlanForStep_def)
  moreover have "planId \<notin> set (map p_id (plans db)) \<longrightarrow> getPlan db planId = None"
    by (auto simp: getPlan_def find_None_iff)
  ultimately show ?thesis by simp
qed

theorem completeStep_unknown_step_rejected_witness:
  "txn two_steps = None \<and> ''zz'' \<notin> set (map s_id (steps two_steps)) \<and>
   completeStep two_steps ''zz'' ''ctx'' = (Inl (JsError ''Invalid plan ID for step''), two_steps) \<and>
   ''q'' \<notin> set (map p_id (plans two_steps)) \<and> getPlan two_steps ''q'' = None"
proof -
  have 1: "''zz'' \<notin> set (map s_id (steps two_steps))" by (simp add: two_steps_eval)
  have 2: "''q'' \<notin> set (map p_id (plans two_steps))" by (simp add: two_steps_eval)
  show ?thesis
    using completeStep_unknown_step_rejected [OF two_steps_idle 1, of "''ctx''" "''q''"]
      1 2 two_steps_idle
    by simp
qed

section \<open>The precondition of failStep\<close>

lemma loadStepToFail_error_kinds:
  "loadStepToFail db stepId = Inl e \<Longrightarrow> PreconditionError e"
  by (auto simp: loadStepToFail_def PreconditionError_def split: option.splits if_splits)

lemma loadStepToFail_rejects_iff:
  "(\<exists>e. loadStepToFail db stepId = Inl e) \<longleftrightarrow>
     (selectStep db stepId = None \<or>
      (\<exists>row. selectStep db stepId = Some row \<and>
         (\<not> (\<exists>p. getPlan db (plan_id row) = Some p \<and> active_step_id p = Some stepId)
           \<or> status row \<noteq> in_progress)))"
  by (auto simp: loadStepToFail_def selectStep_def getPlan_def split: option.splits if_splits)

lemma insertStep_error_kind:
  "insertStep d i p de cc cx now = Inl e \<Longrightarrow> \<not> PreconditionError e"
  by (auto simp: insertStep_def PreconditionError_def split: if_splits)

text \<open>
  C2. On an idle connection \<open>failStep\<close> raises a PreconditionError exactly when the step does
  not exist, or it is not the active step of its plan (no plan row with the step's
  \<open>plan_id\<close> has \<open>active_step_id\<close> equal to the step's id), or its status is not
  \<open>in_progress\<close>. Hence for an existing, active, in-progress step no PreconditionError is
  raised.
\<close>

theorem failStep_PreconditionError_iff:
  assumes "txn db = None"
  shows "(\<exists>e. fst (failStep db stepId newStepDescription newStepCompletionCondition newStepId now)
                = Inl e \<and> PreconditionError e) \<longleftrightarrow>
         (selectStep db stepId = None \<or>
          (\<exists>row. selectStep db stepId = Some row \<and>
             (\<not> (\<exists>p. getPlan db (plan_id row) = Some p \<and> active_step_id p = Some stepId)
               \<or> status row \<noteq> in_progress)))"
proof -
  have "(\<exists>e. fst (failStep db stepId newStepDescription newStepCompletionCondition newStepId now)
                = Inl e \<and> PreconditionError e) \<longleftrightarrow> (\<exists>e. loadStepToFail db stepId = Inl e)"
  proof (cases "loadStepToFail db stepId")
    case (Inl e)
    then show ?thesis
      using assms loadStepToFail_error_kinds [OF Inl] by (simp add: failStep_idle)
  next
    case (Inr fs)
    then show ?thesis
      using assms
      by (auto simp: failStep_idle PreconditionError_def dest: insertStep_error_kind
            split: sum.splits option.splits)
  qed
  then show ?thesis by (simp only: loadStepToFail_rejects_iff)
qed

theorem failStep_PreconditionError_iff_witness:
  "txn two_steps = None \<and>
   (\<exists>e. fst (failStep two_steps ''b'' ''retry'' ''cr'' ''r'' ''t3'') = Inl e \<and> PreconditionError e) \<and>
   \<not> (\<exists>e. fst (failStep two_steps ''a'' ''retry'' ''cr'' ''r'' ''t3'') = Inl e \<and> PreconditionError e)"
proof -
  have b: "\<exists>row. selectStep two_steps ''b'' = Some row \<and>
         (\<not> (\<exists>p. getPlan two_steps (plan_id row) = Some p \<and> active_step_id p = Some ''b'')
           \<or> status row \<noteq> in_progress)"
    by (simp add: two_steps_eval selectStep_def getPlan_def)
  have a: "\<not> (selectStep two_steps ''a'' = None \<or>
          (\<exists>row. selectStep two_steps ''a'' = Some row \<and>
             (\<not> (\<exists>p. getPlan two_steps (plan_id row) = Some p \<and> active_step_id p = Some ''a'')
               \<or> status row \<noteq> in_progress)))"
    by (simp add: two_steps_eval selectStep_def getPlan_def)
  show ?thesis
    using failStep_PreconditionError_iff
            [OF two_steps_idle, of "''b''" "''retry''" "''cr''" "''r''" "''t3''"]
      failStep_PreconditionError_iff
            [OF two_steps_idle, of "''a''" "''retry''" "''cr''" "''r''" "''t3''"]
      a b two_steps_idle
    by blast
qed


section \<open>Reading the active step\<close>

lemma limit1_None: "order_by_step_order_limit1 rows = None \<longleftrightarrow> rows = []"
proof -
  have "sort_key step_order rows = [] \<longleftrightarrow> rows = []"
    by (metis length_sort length_0_conv)
  then show ?thesis
    by (cases "sort_key step_order rows") (auto simp: order_by_step_order_limit1_def)
qed

lemma limit1_Some:
  assumes "order_by_step_order_limit1 rows = Some r"
  shows "r \<in> set rows \<and> (\<forall>t\<in>set rows. step_order r \<le> step_order t)"
proof -
  obtain rest where s: "sort_key step_order rows = r # rest"
    using assms by (auto simp: order_by_step_order_limit1_def split: list.splits)
  have "set (r # rest) = set rows" using s by (metis set_sort)
  moreover have "sorted (map step_order (r # rest))" using s by (metis sorted_sort_key)
  ultimately show ?thesis by auto
qed

lemma limit1_singleton: "order_by_step_order_limit1 [r] = Some r"
  by (simp add: order_by_step_order_limit1_def)

section \<open>Effects of a successful creation\<close>

lemma createPlan_success:
  "createPlan db newId name description now = (Inr p, db1) \<Longrightarrow>
     steps db1 = steps db \<and> txn db1 = txn db \<and> foreign_keys db1 = foreign_keys db"
  by (auto simp: createPlan_def Let_def split: if_splits option.splits)

lemma createStep_success:
  assumes "txn db = None" and "createStep db stepId planId de cc cx now = (Inr row, db')"
  shows "row = \<lparr>s_id = stepId, plan_id = planId, s_description = de,
                 completion_condition = cc, status = in_progress, completion_context = cx,
                 step_order =
                   coalesce (sql_max (map step_order (filter (\<lambda>s. plan_id s = planId) (steps db)))) 0 + 1,
                 s_created_at = now\<rparr>"
    and "steps db' = steps db @ [row]"
    and "txn db' = None"
    and "stepId \<notin> set (map s_id (steps db))"
    and "plans db' = (if getStepCount db' planId = 1
                      then map (\<lambda>p. if p_id p = planId then p\<lparr>active_step_id := or_null (Some stepId)\<rparr> else p) (plans db)
                      else plans db)"
proof -
  obtain db1 where ins: "insertStep db stepId planId de cc cx now = Inr db1"
    using assms by (auto simp: createStep_idle split: sum.splits)
  have sel: "selectStep db1 stepId = Some \<lparr>s_id = stepId, plan_id = planId, s_description = de,
                 completion_condition = cc, status = in_progress, completion_context = cx,
                 step_order =
                   coalesce (sql_max (map step_order (filter (\<lambda>s. plan_id s = planId) (steps db)))) 0 + 1,
                 s_created_at = now\<rparr>"
    using insertStep_select [OF ins] .
  have res: "row = the (selectStep db1 stepId)"
    "db' = (if getStepCount db1 planId = 1 then setActiveStep db1 planId (Some stepId) else db1)"
    using assms ins sel by (simp_all add: createStep_idle)
  show r: "row = \<lparr>s_id = stepId, plan_id = planId, s_description = de,
                 completion_condition = cc, status = in_progress, completion_context = cx,
                 step_order =
                   coalesce (sql_max (map step_order (filter (\<lambda>s. plan_id s = planId) (steps db)))) 0 + 1,
                 s_created_at = now\<rparr>"
    using res sel by simp
  have db1: "steps db1 = steps db @ [row]" "stepId \<notin> set (map s_id (steps db))"
    "plans db1 = plans db" "txn db1 = None"
    using ins r assms(1) by (auto simp: insertStep_def split: if_splits)
  show "steps db' = steps db @ [row]"
    using res db1 by (simp add: setActiveStep_def)
  show "txn db' = None" using res db1 by (simp add: setActiveStep_def)
  show "stepId \<notin> set (map s_id (steps db))" by (rule db1)
  have c: "getStepCount db' planId = getStepCount db1 planId"
    using res by (simp add: setActiveStep_def getStepCount_def)
  show "plans db' = (if getStepCount db' planId = 1
                      then map (\<lambda>p. if p_id p = planId then p\<lparr>active_step_id := or_null (Some stepId)\<rparr> else p) (plans db)
                      else plans db)"
    unfolding c using res db1 by (simp add: setActiveStep_def)
qed

text \<open>
  C9. \<open>getActiveStep\<close> returns absent exactly when the plan has no \<open>in_progress\<close> step,
  and otherwise an \<open>in_progress\<close> step of the plan whose \<open>step_order\<close> is lowest among
  them. The answer depends on the \<open>steps\<close> table only: replacing the \<open>plans\<close> table,
  hence every \<open>active_step_id\<close>, does not change it. After \<open>createPlan\<close> on a store
  holding no step for the new plan's id it returns absent, and after the plan's first
  \<open>createStep\<close> it returns the created step.
\<close>

theorem getActiveStep_lowest_in_progress:
  "(getActiveStep db planId = None \<longleftrightarrow>
      (\<forall>s\<in>set (steps db). plan_id s = planId \<longrightarrow> status s \<noteq> in_progress)) \<and>
   (\<forall>s. getActiveStep db planId = Some s \<longrightarrow>
      s \<in> set (steps db) \<and> plan_id s = planId \<and> status s = in_progress \<and>
      (\<forall>t\<in>set (steps db). plan_id t = planId \<and> status t = in_progress
          \<longrightarrow> step_order s \<le> step_order t)) \<and>
   getActiveStep (db\<lparr>plans := ps\<rparr>) planId = getActiveStep db planId \<and>
   (txn db = None \<and> (\<forall>s\<in>set (steps db). plan_id s \<noteq> planId) \<and>
    createPlan db planId name description t0 = (Inr p, db1) \<longrightarrow>
      getActiveStep db1 planId = None \<and>
      (\<forall>row db2. createStep db1 stepId planId de cc cx t1 = (Inr row, db2)
          \<longrightarrow> getActiveStep db2 planId = Some row))"
proof (intro conjI allI impI)
  show "getActiveStep db planId = None \<longleftrightarrow>
      (\<forall>s\<in>set (steps db). plan_id s = planId \<longrightarrow> status s \<noteq> in_progress)"
    by (auto simp: getActiveStep_def limit1_None filter_empty_conv)
next
  fix s assume a: "getActiveStep db planId = Some s"
  have m: "s \<in> set (filter (\<lambda>s. plan_id s = planId \<and> status s = in_progress) (steps db))"
    and l: "\<forall>t\<in>set (filter (\<lambda>s. plan_id s = planId \<and> status s = in_progress) (steps db)).
              step_order s \<le> step_order t"
    using limit1_Some [OF a [unfolded getActiveStep_def]] by blast+
  show "s \<in> set (steps db)" "plan_id s = planId" "status s = in_progress" using m by auto
  show "\<forall>t\<in>set (steps db). plan_id t = planId \<and> status t = in_progress
          \<longrightarrow> step_order s \<le> step_order t" using l by auto
next
  show "getActiveStep (db\<lparr>plans := ps\<rparr>) planId = getActiveStep db planId"
    by (simp add: getActiveStep_def)
next
  assume a: "txn db = None \<and> (\<forall>s\<in>set (steps db). plan_id s \<noteq> planId) \<and>
    createPlan db planId name description t0 = (Inr p, db1)"
  have s1: "steps db1 = steps db" "txn db1 = None"
    using createPlan_success a by fastforce+
  have e: "filter (\<lambda>s. plan_id s = planId \<and> status s = in_progress) (steps db) = []"
    using a by (simp add: filter_empty_conv)
  show "getActiveStep db1 planId = None"
    using s1 e by (simp add: getActiveStep_def limit1_None)
  fix row db2
  assume c: "createStep db1 stepId planId de cc cx t1 = (Inr row, db2)"
  note cs = createStep_success [OF s1(2) c]
  have "plan_id row = planId" "status row = in_progress" using cs(1) by simp_all
  then show "getActiveStep db2 planId = Some row"
    using cs(2) s1 e by (simp add: getActiveStep_def limit1_singleton)
qed

theorem getActiveStep_lowest_in_progress_witness:
  "getActiveStep one_plan ''p'' = None \<and>
   getActiveStep (snd (createStep one_plan ''a'' ''p'' ''first'' ''ca'' None ''t1'')) ''p''
     = Some \<lparr>s_id = ''a'', plan_id = ''p'', s_description = ''first'',
              completion_condition = ''ca'', status = in_progress,
              completion_context = None, step_order = 1, s_created_at = ''t1''\<rparr>"
proof -
  have 1: "createPlan initializeDatabase ''p'' ''plan'' ''a plan'' ''t0''
         = (Inr \<lparr>p_id = ''p'', p_name = ''plan'', p_description = ''a plan'',
                           p_created_at = ''t0'', active_step_id = None\<rparr>, one_plan)"
    by (simp add: one_plan_eval store_defs)
  have 2: "txn initializeDatabase = None \<and> (\<forall>s\<in>set (steps initializeDatabase). plan_id s \<noteq> ''p'')"
    by (simp add: initializeDatabase_def)
  have 3: "createStep one_plan ''a'' ''p'' ''first'' ''ca'' None ''t1''
     = (Inr \<lparr>s_id = ''a'', plan_id = ''p'', s_description = ''first'',
              completion_condition = ''ca'', status = in_progress,
              completion_context = None, step_order = 1, s_created_at = ''t1''\<rparr>,
        snd (createStep one_plan ''a'' ''p'' ''first'' ''ca'' None ''t1''))"
    by (simp add: one_plan_eval store_defs)
  show ?thesis
    using getActiveStep_lowest_in_progress [of initializeDatabase "''p''" "[]" "''plan''" "''a plan''"
        "''t0''" _ one_plan "''a''" "''first''" "''ca''" None "''t1''"] 1 2 3
    by blast
qed



section \<open>The active pointer after createStep\<close>

text \<open>
  C8. A successful \<open>createStep\<close> with a non-empty drawn id appends the new step to the
  \<open>steps\<close> table. The number of steps of the given plan after the insert is 1 exactly when
  the plan had no step before. When that number is 1 the \<open>plans\<close> table changes only in
  the \<open>active_step_id\<close> of the rows of that plan, which becomes the new step's id; with
  any other number the whole \<open>plans\<close> table is unchanged. Where every non-null
  \<open>active_step_id\<close> named an existing step beforehand, a row of the plan points at the new
  step afterwards if and only if that number is 1.
\<close>

theorem createStep_sets_active_only_for_first_step:
  assumes "txn db = None" and "stepId \<noteq> []"
    and "createStep db stepId planId description completionCondition completionContext now
           = (Inr row, db')"
  shows "s_id row = stepId \<and> plan_id row = planId \<and> steps db' = steps db @ [row] \<and>
         (length (filter (\<lambda>s. plan_id s = planId) (steps db')) = 1
            \<longleftrightarrow> (\<forall>s\<in>set (steps db). plan_id s \<noteq> planId)) \<and>
         (length (filter (\<lambda>s. plan_id s = planId) (steps db')) = 1 \<longrightarrow>
            plans db' = map (\<lambda>p. if p_id p = planId then p\<lparr>active_step_id := Some stepId\<rparr> else p)
                          (plans db)) \<and>
         (length (filter (\<lambda>s. plan_id s = planId) (steps db')) \<noteq> 1 \<longrightarrow> plans db' = plans db) \<and>
         ((\<forall>p\<in>set (plans db). \<forall>i. active_step_id p = Some i \<longrightarrow> i \<in> set (map s_id (steps db)))
            \<longrightarrow> (\<forall>p'\<in>set (plans db'). p_id p' = planId \<longrightarrow>
                   (active_step_id p' = Some stepId
                      \<longleftrightarrow> length (filter (\<lambda>s. plan_id s = planId) (steps db')) = 1)))"
proof -
  let ?n = "length (filter (\<lambda>s. plan_id s = planId) (steps db'))"
  note cs = createStep_success [OF assms(1) assms(3)]
  have o: "or_null (Some stepId) = Some stepId" using assms(2) by (simp add: or_null_def)
  have 1: "s_id row = stepId" "plan_id row = planId" using cs(1) by simp_all
  have n: "?n = Suc (length (filter (\<lambda>s. plan_id s = planId) (steps db)))"
    using cs(2) 1(2) by simp
  have first: "?n = 1 \<longleftrightarrow> (\<forall>s\<in>set (steps db). plan_id s \<noteq> planId)"
    unfolding n by (simp add: filter_empty_conv)
  have g: "getStepCount db' planId = ?n" by (simp add: getStepCount_def)
  have 2: "plans db' = map (\<lambda>p. if p_id p = planId then p\<lparr>active_step_id := Some stepId\<rparr> else p)
                          (plans db)" if "?n = 1"
    using cs(5) o that unfolding g by simp
  have 3: "plans db' = plans db" if "?n \<noteq> 1"
    using cs(5) that unfolding g by simp
  have 4: "active_step_id p' = Some stepId \<longleftrightarrow> ?n = 1"
    if inv: "\<forall>p\<in>set (plans db). \<forall>i. active_step_id p = Some i \<longrightarrow> i \<in> set (map s_id (steps db))"
      and p': "p' \<in> set (plans db')" "p_id p' = planId" for p'
  proof (cases "?n = 1")
    case True
    have "p' \<in> (\<lambda>p. if p_id p = planId then p\<lparr>active_step_id := Some stepId\<rparr> else p)
                 ` set (plans db)"
      using p'(1) unfolding 2 [OF True] by simp
    then obtain p where "p' = (if p_id p = planId then p\<lparr>active_step_id := Some stepId\<rparr> else p)"
      by (rule imageE)
    then have "active_step_id p' = Some stepId"
      using p'(2) by (cases "p_id p = planId") simp_all
    then show ?thesis using True by simp
  next
    case False
    have "p' \<in> set (plans db)" using p'(1) 3 [OF False] by simp
    then have "active_step_id p' \<noteq> Some stepId"
      using inv cs(4) by blast
    then show ?thesis using False by simp
  qed
  show ?thesis
  proof (intro conjI impI ballI)
    show "s_id row = stepId" "plan_id row = planId" by (rule 1)+
    show "steps db' = steps db @ [row]" by (rule cs(2))
    show "?n = 1 \<longleftrightarrow> (\<forall>s\<in>set (steps db). plan_id s \<noteq> planId)" by (rule first)
    show "plans db' = map (\<lambda>p. if p_id p = planId then p\<lparr>active_step_id := Some stepId\<rparr> else p)
                          (plans db)" if "?n = 1"
      using that by (rule 2)
    show "plans db' = plans db" if "?n \<noteq> 1"
      using that by (rule 3)
    show "active_step_id p' = Some stepId \<longleftrightarrow> ?n = 1"
      if "\<forall>p\<in>set (plans db). \<forall>i. active_step_id p = Some i \<longrightarrow> i \<in> set (map s_id (steps db))"
        and "p' \<in> set (plans db')" "p_id p' = planId" for p'
      using that by (rule 4)
  qed
qed

theorem createStep_sets_active_only_for_first_step_witness:
  "fst (createStep two_plans ''c'' ''q'' ''third'' ''cc'' None ''t4'')
     = Inr \<lparr>s_id = ''c'', plan_id = ''q'', s_description = ''third'',
             completion_condition = ''cc'', status = in_progress,
             completion_context = None, step_order = 1, s_created_at = ''t4''\<rparr> \<and>
   length (steps (snd (createStep two_plans ''c'' ''q'' ''third'' ''cc'' None ''t4''))) = 3 \<and>
   length (filter (\<lambda>s. plan_id s = ''q'')
             (steps (snd (createStep two_plans ''c'' ''q'' ''third'' ''cc'' None ''t4'')))) = 1 \<and>
   plans (snd (createStep two_plans ''c'' ''q'' ''third'' ''cc'' None ''t4''))
     = [\<lparr>p_id = ''p'', p_name = ''plan'', p_description = ''a plan'',
         p_created_at = ''t0'', active_step_id = Some ''a''\<rparr>,
        \<lparr>p_id = ''q'', p_name = ''other'', p_description = ''another plan'',
         p_created_at = ''t3'', active_step_id = Some ''c''\<rparr>] \<and>
   fst (createStep two_plans ''c'' ''p'' ''third'' ''cc'' None ''t4'')
     = Inr \<lparr>s_id = ''c'', plan_id = ''p'', s_description = ''third'',
             completion_condition = ''cc'', status = in_progress,
             completion_context = None, step_order = 3, s_created_at = ''t4''\<rparr> \<and>
   length (filter (\<lambda>s. plan_id s = ''p'')
             (steps (snd (createStep two_plans ''c'' ''p'' ''third'' ''cc'' None ''t4'')))) = 3 \<and>
   plans (snd (createStep two_plans ''c'' ''p'' ''third'' ''cc'' None ''t4'')) = plans two_plans"
proof -
  let ?rq = "\<lparr>s_id = ''c'', plan_id = ''q'', s_description = ''third'',
             completion_condition = ''cc'', status = in_progress,
             completion_context = None, step_order = 1, s_created_at = ''t4''\<rparr>"
  let ?rp = "\<lparr>s_id = ''c'', plan_id = ''p'', s_description = ''third'',
             completion_condition = ''cc'', status = in_progress,
             completion_context = None, step_order = 3, s_created_at = ''t4''\<rparr>"
  let ?dq = "snd (createStep two_plans ''c'' ''q'' ''third'' ''cc'' None ''t4'')"
  let ?dp = "snd (createStep two_plans ''c'' ''p'' ''third'' ''cc'' None ''t4'')"
  have e: "''c'' \<noteq> []" by simp
  have fq: "fst (createStep two_plans ''c'' ''q'' ''third'' ''cc'' None ''t4'') = Inr ?rq"
    by (simp add: two_plans_eval store_defs)
  have fp: "fst (createStep two_plans ''c'' ''p'' ''third'' ''cc'' None ''t4'') = Inr ?rp"
    by (simp add: two_plans_eval store_defs)
  have cq: "createStep two_plans ''c'' ''q'' ''third'' ''cc'' None ''t4'' = (Inr ?rq, ?dq)"
    using fq by (metis prod.collapse)
  have cp: "createStep two_plans ''c'' ''p'' ''third'' ''cc'' None ''t4'' = (Inr ?rp, ?dp)"
    using fp by (metis prod.collapse)
  note tq = createStep_sets_active_only_for_first_step [OF two_plans_idle e cq]
  note tp = createStep_sets_active_only_for_first_step [OF two_plans_idle e cp]
  have sq: "steps ?dq = steps two_plans @ [?rq]"
    using tq by (rule conjunct2 [THEN conjunct2, THEN conjunct1])
  have sp: "steps ?dp = steps two_plans @ [?rp]"
    using tp by (rule conjunct2 [THEN conjunct2, THEN conjunct1])
  have lq: "length (steps ?dq) = 3" unfolding sq by (simp add: two_plans_eval)
  have nq: "length (filter (\<lambda>s. plan_id s = ''q'') (steps ?dq)) = 1"
    unfolding sq by (simp add: two_plans_eval)
  have np: "length (filter (\<lambda>s. plan_id s = ''p'') (steps ?dp)) = 3"
    unfolding sp by (simp add: two_plans_eval)
  have "plans ?dq = map (\<lambda>p. if p_id p = ''q'' then p\<lparr>active_step_id := Some ''c''\<rparr> else p)
                          (plans two_plans)"
    using tq nq by blast
  then have pq: "plans ?dq
     = [\<lparr>p_id = ''p'', p_name = ''plan'', p_description = ''a plan'',
         p_created_at = ''t0'', active_step_id = Some ''a''\<rparr>,
        \<lparr>p_id = ''q'', p_name = ''other'', p_description = ''another plan'',
         p_created_at = ''t3'', active_step_id = Some ''c''\<rparr>]"
    by (simp add: two_plans_eval)
  have "length (filter (\<lambda>s. plan_id s = ''p'') (steps ?dp)) \<noteq> 1" unfolding np by simp
  then have pp: "plans ?dp = plans two_plans"
    using tp by blast
  show ?thesis
    using fq lq nq pq fp np pp by (intro conjI)
qed

section \<open>Orders assigned by successive createStep calls\<close>


lemma sql_max_snoc:
  "sql_max (xs @ [coalesce (sql_max xs) 0 + 1]) = Some (coalesce (sql_max xs) 0 + 1)"
  by (cases xs) (simp_all add: coalesce_def)

lemma upt_shift: "map (\<lambda>i. k + int i) [1..<Suc (Suc n)] = (k + 1) # map (\<lambda>i. k + 1 + int i) [1..<Suc n]"
proof -
  have "[1..<Suc (Suc n)] = 1 # map Suc [1..<Suc n]"
    by (simp add: upt_conv_Cons map_Suc_upt del: upt_Suc)
  then show ?thesis by (simp add: o_def del: upt_Suc)
qed

lemma createSteps_orders:
  "txn db = None \<Longrightarrow> createSteps db planId args = (Inr rows, db') \<Longrightarrow>
   map step_order rows =
     map (\<lambda>i. coalesce (sql_max (map step_order (filter (\<lambda>s. plan_id s = planId) (steps db)))) 0 + int i)
       [1..<Suc (length args)]"
proof (induction args arbitrary: db rows)
  case Nil
  then show ?case by simp
next
  case (Cons a rest)
  obtain stepId de cc cx now where a: "a = (stepId, de, cc, cx, now)"
    by (cases a) auto
  let ?k = "coalesce (sql_max (map step_order (filter (\<lambda>s. plan_id s = planId) (steps db)))) 0"
  from Cons.prems(2) obtain row db1 rows' where
    c: "createStep db stepId planId de cc cx now = (Inr row, db1)" and
    r: "createSteps db1 planId rest = (Inr rows', db')" and
    rows: "rows = row # rows'"
    unfolding a by (auto split: prod.splits sum.splits)
  note cs = createStep_success [OF Cons.prems(1) c]
  have ro: "step_order row = ?k + 1" "plan_id row = planId" using cs(1) by simp_all
  have k1: "coalesce (sql_max (map step_order (filter (\<lambda>s. plan_id s = planId) (steps db1)))) 0 = ?k + 1"
    using cs(2) ro sql_max_snoc [of "map step_order (filter (\<lambda>s. plan_id s = planId) (steps db))"]
    by (simp add: coalesce_def)
  have "map step_order rows' = map (\<lambda>i. ?k + 1 + int i) [1..<Suc (length rest)]"
    using Cons.IH [OF cs(3) r] k1 by simp
  then show ?case
    using rows ro upt_shift [of ?k "length rest"] by simp
qed

lemma createSteps_length:
  "createSteps db planId args = (Inr rows, db') \<Longrightarrow> length rows = length args"
proof (induction args arbitrary: db rows)
  case Nil
  then show ?case by simp
next
  case (Cons a rest)
  then show ?case
    by (cases a) (auto split: prod.splits sum.splits)
qed

text \<open>
  C6. On a plan that has no step yet, \<open>n\<close> successful \<open>createStep\<close> calls in a row
  return steps whose \<open>step_order\<close> values are 1, 2, ..., \<open>n\<close>; and every successful
  \<open>createStep\<close> gives its step \<^verbatim>\<open>COALESCE(MAX(step_order), 0) + 1\<close> over the steps the
  plan had before the call.
\<close>

theorem createStep_orders_count_up_from_one:
  assumes "txn db = None" and "\<forall>s\<in>set (steps db). plan_id s \<noteq> planId"
    and "createSteps db planId args = (Inr rows, db')"
  shows "length rows = length args \<and>
         map step_order rows = map int [1..<Suc (length args)] \<and>
         (\<forall>d stepId de cc cx now row d'.
            txn d = None \<and> createStep d stepId planId de cc cx now = (Inr row, d') \<longrightarrow>
            step_order row =
              coalesce (sql_max (map step_order (filter (\<lambda>s. plan_id s = planId) (steps d)))) 0 + 1)"
proof -
  have e: "filter (\<lambda>s. plan_id s = planId) (steps db) = []"
    using assms(2) by (simp add: filter_empty_conv)
  have "map step_order rows = map (\<lambda>i. 0 + int i) [1..<Suc (length args)]"
    using createSteps_orders [OF assms(1) assms(3)] by (simp add: e coalesce_def)
  then have 1: "map step_order rows = map int [1..<Suc (length args)]" by simp
  have 2: "length rows = length args" using assms(3) by (rule createSteps_length)
  have 3: "step_order row =
              coalesce (sql_max (map step_order (filter (\<lambda>s. plan_id s = planId) (steps d)))) 0 + 1"
    if "txn d = None \<and> createStep d stepId planId de cc cx now = (Inr row, d')"
    for d stepId de cc cx now row d'
    using createStep_success(1) [of d stepId planId de cc cx now row d'] that by simp
  show ?thesis using 1 2 3 by blast
qed



theorem createStep_orders_count_up_from_one_witness:
  "txn one_plan = None \<and> steps one_plan = [] \<and>
   map_sum id (map step_order)
     (fst (createSteps one_plan ''p''
        [(''a'', ''first'', ''ca'', None, ''t1''), (''b'', ''second'', ''cb'', None, ''t2''),
         (''c'', ''third'', ''cc'', None, ''t3'')])) = Inr [1, 2, 3]"
proof -
  let ?args = "[(''a'', ''first'', ''ca'', None, ''t1''), (''b'', ''second'', ''cb'', None, ''t2''),
        (''c'', ''third'', ''cc'', None, ''t3'')]"
  have "\<exists>rows. fst (createSteps one_plan ''p'' ?args) = Inr rows"
    by (simp add: one_plan_eval store_defs)
  then obtain rows where f: "fst (createSteps one_plan ''p'' ?args) = Inr rows" ..
  then have c: "createSteps one_plan ''p'' ?args = (Inr rows, snd (createSteps one_plan ''p'' ?args))"
    by (metis prod.collapse)
  have n: "\<forall>s\<in>set (steps one_plan). plan_id s \<noteq> ''p''" by (simp add: one_plan_eval)
  have u: "map int [1..<Suc (length ?args)] = [1, 2, 3]" by (simp add: upt_conv_Cons)
  have "map step_order rows = [1, 2, 3]"
    using createStep_orders_count_up_from_one [OF one_plan_idle n c] u by simp
  moreover have "steps one_plan = []" by (simp add: one_plan_eval)
  ultimately show ?thesis
    using f one_plan_idle by simp
qed


section \<open>Completing a step\<close>


lemma find_map_same_key:
  assumes "\<And>s. s_id (f s) = s_id s"
  shows "find (\<lambda>s. s_id s = i) (map f xs) = map_option f (find (\<lambda>s. s_id s = i) xs)"
  by (induction xs) (simp_all add: assms)







section \<open>Effects of a successful failStep\<close>

text \<open>
  A successful \<open>failStep\<close> maps the steps table through the status update and the shift
  and appends the replacement, whose order is the one \<open>insertStep\<close> computes: one more
  than the highest order of the plan after the shift. That is the failed step's order plus
  one exactly when the failed step was the last of its plan, and larger otherwise.
\<close>

lemma sql_max_Max: "xs \<noteq> [] \<Longrightarrow> sql_max xs = Some (Max (set xs))"
proof (cases xs)
  case Nil
  assume "xs \<noteq> []"
  with Nil show ?thesis by simp
next
  case (Cons a list)
  then show ?thesis by (simp only: sql_max.simps Max.set_eq_fold)
qed

lemma set_map_filter_map:
  "set (map f (filter P (map g xs))) = (\<lambda>t. f (g t)) ` {t \<in> set xs. P (g t)}"
  by (induction xs) auto

lemma loadStepToFail_success:
  "loadStepToFail db stepId = Inr S \<Longrightarrow>
     selectStep db stepId = Some S \<and> s_id S = stepId \<and> status S = in_progress \<and>
     (\<exists>p. getPlan db (plan_id S) = Some p \<and> active_step_id p = Some stepId)"
  by (auto simp: loadStepToFail_def selectStep_def getPlan_def find_Some_iff
        split: option.splits if_splits)

lemma failStep_success:
  assumes "txn db = None"
    and "failStep db stepId de cc newStepId now = (Inr (fid, new), db')"
  shows "\<exists>S. loadStepToFail db stepId = Inr S \<and> fid = stepId \<and>
     steps db' =
       map (\<lambda>s. if plan_id s = plan_id S \<and> step_order S < step_order s
                 then s\<lparr>step_order := step_order s + 1\<rparr> else s)
         (map (\<lambda>s. if s_id s = stepId then s\<lparr>status := failed\<rparr> else s) (steps db)) @ [new] \<and>
     new = \<lparr>s_id = newStepId, plan_id = plan_id S, s_description = de,
            completion_condition = cc, status = in_progress, completion_context = None,
            step_order =
              coalesce (sql_max (map step_order (filter (\<lambda>s. plan_id s = plan_id S)
                (map (\<lambda>s. if plan_id s = plan_id S \<and> step_order S < step_order s
                           then s\<lparr>step_order := step_order s + 1\<rparr> else s)
                   (map (\<lambda>s. if s_id s = stepId then s\<lparr>status := failed\<rparr> else s) (steps db)))))) 0 + 1,
            s_created_at = now\<rparr> \<and>
     plans db' = map (\<lambda>p. if p_id p = plan_id S
                           then p\<lparr>active_step_id := or_null (Some newStepId)\<rparr> else p) (plans db)"
proof -
  obtain S where l: "loadStepToFail db stepId = Inr S"
    using assms by (auto simp: failStep_idle split: sum.splits)
  let ?db2 = "shiftSubsequentSteps (markStepFailed db stepId) (plan_id S) (step_order S)"
  obtain db3 where i: "insertStep ?db2 newStepId (plan_id S) de cc None now = Inr db3"
    using assms l by (auto simp: failStep_idle split: sum.splits)
  let ?new = "\<lparr>s_id = newStepId, plan_id = plan_id S, s_description = de,
            completion_condition = cc, status = in_progress, completion_context = None,
            step_order =
              coalesce (sql_max (map step_order (filter (\<lambda>s. plan_id s = plan_id S) (steps ?db2)))) 0 + 1,
            s_created_at = now\<rparr>"
  have sel: "selectStep db3 newStepId = Some ?new"
    using insertStep_select [OF i] .
  have "failStep db stepId de cc newStepId now
          = (Inr (stepId, ?new), setActiveStep db3 (plan_id S) (Some newStepId))"
    using assms(1) l i sel by (simp add: failStep_idle)
  then have res: "fid = stepId" "new = ?new"
    "db' = setActiveStep db3 (plan_id S) (Some newStepId)"
    using assms(2) by auto
  have s2: "steps ?db2 = map (\<lambda>s. if plan_id s = plan_id S \<and> step_order S < step_order s
                 then s\<lparr>step_order := step_order s + 1\<rparr> else s)
         (map (\<lambda>s. if s_id s = stepId then s\<lparr>status := failed\<rparr> else s) (steps db))"
    "plans ?db2 = plans db"
    by (simp_all add: shiftSubsequentSteps_def markStepFailed_def)
  note n = res(2)
  have s3: "steps db3 = steps ?db2 @ [new]" "plans db3 = plans ?db2"
    using i n by (auto simp: insertStep_def split: if_splits)
  have "steps db' = steps ?db2 @ [new]" "plans db' = map (\<lambda>p. if p_id p = plan_id S
                           then p\<lparr>active_step_id := or_null (Some newStepId)\<rparr> else p) (plans db)"
    using res(3) s3 s2(2) by (simp_all add: setActiveStep_def)
  then show ?thesis using l res(1) n unfolding s2(1) by blast
qed

lemma failStep_replacement_order:
  assumes "txn db = None"
    and "failStep db stepId de cc newStepId now = (Inr (fid, new), db')"
    and "selectStep db stepId = Some S"
  shows "step_order S + 1 \<le> step_order new"
    and "step_order new = step_order S + 1 \<longleftrightarrow>
           (\<forall>t\<in>set (steps db). plan_id t = plan_id S \<longrightarrow> step_order t \<le> step_order S)"
proof -
  let ?mark = "\<lambda>s::StepRow. if s_id s = stepId then s\<lparr>status := failed\<rparr> else s"
  let ?shift = "\<lambda>s::StepRow. if plan_id s = plan_id S \<and> step_order S < step_order s
                 then s\<lparr>step_order := step_order s + 1\<rparr> else s"
  let ?g = "\<lambda>t::StepRow. ?shift (?mark t)"
  define os where
    "os = map step_order (filter (\<lambda>s. plan_id s = plan_id S) (map ?shift (map ?mark (steps db))))"
  obtain S0 where l: "loadStepToFail db stepId = Inr S0" and
    n0: "new = \<lparr>s_id = newStepId, plan_id = plan_id S0, s_description = de,
            completion_condition = cc, status = in_progress, completion_context = None,
            step_order =
              coalesce (sql_max (map step_order (filter (\<lambda>s. plan_id s = plan_id S0)
                (map (\<lambda>s. if plan_id s = plan_id S0 \<and> step_order S0 < step_order s
                           then s\<lparr>step_order := step_order s + 1\<rparr> else s)
                   (map ?mark (steps db)))))) 0 + 1,
            s_created_at = now\<rparr>"
    using failStep_success [OF assms(1,2)] by blast
  have "S0 = S" using loadStepToFail_success [OF l] assms(3) by simp
  then have n: "step_order new = coalesce (sql_max os) 0 + 1" using n0 by (simp add: os_def)
  have Sin: "S \<in> set (steps db)" using assms(3) by (auto simp: selectStep_def find_Some_iff)
  have pg: "plan_id (?g t) = plan_id t" for t by simp
  have og: "step_order (?g t) =
              (if plan_id t = plan_id S \<and> step_order S < step_order t
               then step_order t + 1 else step_order t)" for t by simp
  have "os = map step_order (filter (\<lambda>s. plan_id s = plan_id S) (map ?g (steps db)))"
    by (simp add: os_def o_def)
  then have "set os = (\<lambda>t. step_order (?g t)) ` {t \<in> set (steps db). plan_id (?g t) = plan_id S}"
    by (simp only: set_map_filter_map)
  then have set_os: "set os =
      (\<lambda>t. if plan_id t = plan_id S \<and> step_order S < step_order t
            then step_order t + 1 else step_order t) ` {t \<in> set (steps db). plan_id t = plan_id S}"
    by (simp only: pg og)
  have in_os: "(if step_order S < step_order t then step_order t + 1 else step_order t) \<in> set os"
    if "t \<in> set (steps db)" "plan_id t = plan_id S" for t
    unfolding set_os using that by (intro image_eqI [of _ _ t]) simp_all
  have mem: "step_order S \<in> set os"
    using in_os [OF Sin] by simp
  then have ne: "os \<noteq> []" by auto
  have m: "coalesce (sql_max os) 0 = Max (set os)"
    using sql_max_Max [OF ne] by (simp add: coalesce_def)
  have ge: "step_order S \<le> Max (set os)" using mem by simp
  show "step_order S + 1 \<le> step_order new" using n m ge by simp
  show "step_order new = step_order S + 1 \<longleftrightarrow>
           (\<forall>t\<in>set (steps db). plan_id t = plan_id S \<longrightarrow> step_order t \<le> step_order S)"
  proof
    assume "step_order new = step_order S + 1"
    then have mx: "Max (set os) = step_order S" using n m by simp
    show "\<forall>t\<in>set (steps db). plan_id t = plan_id S \<longrightarrow> step_order t \<le> step_order S"
    proof (intro ballI impI, rule ccontr)
      fix t assume t: "t \<in> set (steps db)" "plan_id t = plan_id S" "\<not> step_order t \<le> step_order S"
      then have "step_order t + 1 \<in> set os"
        using in_os [OF t(1,2)] by simp
      then have "step_order t + 1 \<le> Max (set os)" by simp
      then show False using mx t(3) by simp
    qed
  next
    assume a: "\<forall>t\<in>set (steps db). plan_id t = plan_id S \<longrightarrow> step_order t \<le> step_order S"
    have "\<forall>x\<in>set os. x \<le> step_order S"
      unfolding set_os using a by fastforce
    then have "Max (set os) \<le> step_order S" using ne by simp
    then show "step_order new = step_order S + 1" using n m ge by simp
  qed
qed

section \<open>Steps that other operations leave alone\<close>

text \<open>
  With \<open>foreign_keys\<close> switched on, the declared foreign key would reject a step for a
  missing plan. A step that is \<open>completed\<close> or \<open>failed\<close> keeps its status and context
  under \<open>createPlan\<close>, \<open>createStep\<close>, \<open>failStep\<close> and under \<open>completeStep\<close> of any
  other step.
\<close>

lemma createStep_with_foreign_keys_rejects_missing_plan:
  assumes "txn db = None" and "foreign_keys db"
    and "planId \<notin> set (map p_id (plans db))"
  shows "\<exists>e. createStep db stepId planId de cc cx now = (Inl e, db)"
  using assms by (simp add: createStep_idle insertStep_def)

lemma completeStep_steps:
  assumes "txn db = None" and "completeStep db stepId cx = (Inr nx, db')"
  shows "steps db' = map (\<lambda>s. if s_id s = stepId
                               then s\<lparr>status := completed, completion_context := Some cx\<rparr>
                               else s) (steps db)"
proof -
  have "steps db' = steps (markStepCompleted db stepId cx)"
    using assms
    by (auto simp: completeStep_idle Let_def setActiveStep_def split: sum.splits)
  then show ?thesis by (simp add: markStepCompleted_def)
qed

lemma terminal_step_kept_by_other_operations:
  assumes "txn db = None" and "selectStep db i = Some T" and "status T \<noteq> in_progress"
  shows "createPlan db newId name description now = (Inr p, db') \<longrightarrow> selectStep db' i = Some T"
    and "createStep db stepId planId de cc cx now = (Inr row, db') \<longrightarrow> selectStep db' i = Some T"
    and "failStep db stepId de cc newStepId now = (Inr r, db') \<longrightarrow>
           (\<exists>T'. selectStep db' i = Some T' \<and> status T' = status T \<and>
                 completion_context T' = completion_context T)"
    and "i \<noteq> stepId \<and> completeStep db stepId ctx = (Inr nx, db') \<longrightarrow> selectStep db' i = Some T"
proof -
  have fT: "find (\<lambda>s. s_id s = i) (steps db) = Some T"
    using assms(2) by (simp add: selectStep_def)
  then have idT: "s_id T = i" by (auto simp: find_Some_iff)
  show "createPlan db newId name description now = (Inr p, db') \<longrightarrow> selectStep db' i = Some T"
    using createPlan_success [of db newId name description now p db'] assms(2)
    by (auto simp: selectStep_def)
  show "createStep db stepId planId de cc cx now = (Inr row, db') \<longrightarrow> selectStep db' i = Some T"
  proof
    assume c: "createStep db stepId planId de cc cx now = (Inr row, db')"
    show "selectStep db' i = Some T"
      using createStep_success(2) [OF assms(1) c] fT
      by (simp add: selectStep_def find_append_new)
  qed
  show "failStep db stepId de cc newStepId now = (Inr r, db') \<longrightarrow>
           (\<exists>T'. selectStep db' i = Some T' \<and> status T' = status T \<and>
                 completion_context T' = completion_context T)"
  proof
    assume f: "failStep db stepId de cc newStepId now = (Inr r, db')"
    let ?mark = "\<lambda>s::StepRow. if s_id s = stepId then s\<lparr>status := failed\<rparr> else s"
    obtain fid new where r: "r = (fid, new)" by (cases r)
    obtain S where l: "loadStepToFail db stepId = Inr S" and
      st: "steps db' =
       map (\<lambda>s. if plan_id s = plan_id S \<and> step_order S < step_order s
                 then s\<lparr>step_order := step_order s + 1\<rparr> else s)
         (map ?mark (steps db)) @ [new]"
      using failStep_success [OF assms(1) f [unfolded r]] by blast
    let ?g = "\<lambda>s::StepRow. (\<lambda>s. if plan_id s = plan_id S \<and> step_order S < step_order s
                 then s\<lparr>step_order := step_order s + 1\<rparr> else s) (?mark s)"
    have "i \<noteq> stepId"
      using loadStepToFail_success [OF l] assms(2,3) by auto
    then have gT: "status (?g T) = status T" "completion_context (?g T) = completion_context T"
      using idT by simp_all
    have "steps db' = map ?g (steps db) @ [new]" using st by (simp add: o_def)
    moreover have "find (\<lambda>s. s_id s = i) (map ?g (steps db)) = map_option ?g (find (\<lambda>s. s_id s = i) (steps db))"
      by (rule find_map_same_key) simp
    ultimately have "selectStep db' i = Some (?g T)"
      using fT by (simp add: selectStep_def find_append_new)
    then show "\<exists>T'. selectStep db' i = Some T' \<and> status T' = status T \<and>
                 completion_context T' = completion_context T"
      using gT by blast
  qed
  show "i \<noteq> stepId \<and> completeStep db stepId ctx = (Inr nx, db') \<longrightarrow> selectStep db' i = Some T"
  proof
    assume a: "i \<noteq> stepId \<and> completeStep db stepId ctx = (Inr nx, db')"
    let ?f = "\<lambda>s::StepRow. if s_id s = stepId
                 then s\<lparr>status := completed, completion_context := Some ctx\<rparr> else s"
    have "steps db' = map ?f (steps db)"
      using completeStep_steps [OF assms(1)] a by blast
    moreover have "find (\<lambda>s. s_id s = i) (map ?f (steps db)) = map_option ?f (find (\<lambda>s. s_id s = i) (steps db))"
      by (rule find_map_same_key) simp
    ultimately show "selectStep db' i = Some T"
      using fT a idT by (simp add: selectStep_def)
  qed
qed

section \<open>Where the code departs from the specification\<close>

lemma after_fail_eval:
  "after_fail =
     \<lparr>plans = [\<lparr>p_id = ''p'', p_name = ''plan'', p_description = ''a plan'',
                 p_created_at = ''t0'', active_step_id = Some ''r''\<rparr>],
      steps = [\<lparr>s_id = ''a'', plan_id = ''p'', s_description = ''first'',
                 completion_condition = ''ca'', status = failed,
                 completion_context = None, step_order = 1, s_created_at = ''t1''\<rparr>,
               \<lparr>s_id = ''b'', plan_id = ''p'', s_description = ''second'',
                 completion_condition = ''cb'', status = in_progress,
                 completion_context = None, step_order = 3, s_created_at = ''t2''\<rparr>,
               \<lparr>s_id = ''r'', plan_id = ''p'', s_description = ''retry'',
                 completion_condition = ''cr'', status = in_progress,
                 completion_context = None, step_order = 4, s_created_at = ''t3''\<rparr>],
      txn = None, foreign_keys = False\<rparr>"
  by (simp add: after_fail_def two_steps_eval store_defs)

text \<open>
  C1. The property: failing the active, in-progress step \<open>S\<close> leaves \<open>S\<close> failed at its
  order, adds 1 to the order of every later step of the plan, inserts the replacement at
  \<open>S\<close>'s order + 1 and makes it the active step. The code at a plan \<open>p\<close> with the steps
  \<open>a\<close> (order 1, active, in progress) and \<open>b\<close> (order 2): failing \<open>a\<close> leaves it failed
  at order 1, moves \<open>b\<close> to order 3 and makes the replacement \<open>r\<close> the active step, but
  \<open>r\<close> is inserted by \<open>insertStep\<close> and so gets \<^verbatim>\<open>MAX(step_order) + 1\<close> = 4, not
  the order 2 that the source's comment on the insert announces.
\<close>

theorem failStep_replacement_order_after_later_steps:
  "getPlan two_steps ''p''
     = Some \<lparr>p_id = ''p'', p_name = ''plan'', p_description = ''a plan'',
              p_created_at = ''t0'', active_step_id = Some ''a''\<rparr> \<and>
   selectStep two_steps ''a''
     = Some \<lparr>s_id = ''a'', plan_id = ''p'', s_description = ''first'',
              completion_condition = ''ca'', status = in_progress,
              completion_context = None, step_order = 1, s_created_at = ''t1''\<rparr> \<and>
   failStep two_steps ''a'' ''retry'' ''cr'' ''r'' ''t3'' =
     (Inr (''a'', \<lparr>s_id = ''r'', plan_id = ''p'', s_description = ''retry'',
                   completion_condition = ''cr'', status = in_progress,
                   completion_context = None, step_order = 4, s_created_at = ''t3''\<rparr>),
      \<lparr>plans = [\<lparr>p_id = ''p'', p_name = ''plan'', p_description = ''a plan'',
                  p_created_at = ''t0'', active_step_id = Some ''r''\<rparr>],
       steps = [\<lparr>s_id = ''a'', plan_id = ''p'', s_description = ''first'',
                  completion_condition = ''ca'', status = failed,
                  completion_context = None, step_order = 1, s_created_at = ''t1''\<rparr>,
                \<lparr>s_id = ''b'', plan_id = ''p'', s_description = ''second'',
                  completion_condition = ''cb'', status = in_progress,
                  completion_context = None, step_order = 3, s_created_at = ''t2''\<rparr>,
                \<lparr>s_id = ''r'', plan_id = ''p'', s_description = ''retry'',
                  completion_condition = ''cr'', status = in_progress,
                  completion_context = None, step_order = 4, s_created_at = ''t3''\<rparr>],
       txn = None, foreign_keys = False\<rparr>)"
  by (simp add: two_steps_eval store_defs)

text \<open>
  C4. The property: once a step is \<open>completed\<close> or \<open>failed\<close>, no later operation changes
  its status or its completion context, \<open>completeStep\<close> on that step included. The code:
  in the store reached above, step \<open>a\<close> is \<open>failed\<close> with no completion context;
  \<open>completeStep\<close> on \<open>a\<close> succeeds and leaves it \<open>completed\<close> with context
  \<^verbatim>\<open>done\<close>, and a second \<open>completeStep\<close> replaces that context by \<^verbatim>\<open>again\<close>.
  \<open>failStep\<close> checks that the status is \<open>in_progress\<close> before it writes;
  \<open>completeStep\<close> has no such check.
\<close>

theorem completeStep_overwrites_terminal_step:
  "selectStep after_fail ''a''
     = Some \<lparr>s_id = ''a'', plan_id = ''p'', s_description = ''first'',
              completion_condition = ''ca'', status = failed,
              completion_context = None, step_order = 1, s_created_at = ''t1''\<rparr> \<and>
   selectStep (snd (completeStep after_fail ''a'' ''done'')) ''a''
     = Some \<lparr>s_id = ''a'', plan_id = ''p'', s_description = ''first'',
              completion_condition = ''ca'', status = completed,
              completion_context = Some ''done'', step_order = 1, s_created_at = ''t1''\<rparr> \<and>
   selectStep (snd (completeStep (snd (completeStep after_fail ''a'' ''done'')) ''a'' ''again'')) ''a''
     = Some \<lparr>s_id = ''a'', plan_id = ''p'', s_description = ''first'',
              completion_condition = ''ca'', status = completed,
              completion_context = Some ''again'', step_order = 1, s_created_at = ''t1''\<rparr>"
  by (simp add: after_fail_eval store_defs)

text \<open>
  C5. The property: every step row's \<open>plan_id\<close> is the id of an existing plan row, whatever
  \<open>planId\<close> is given to \<open>createStep\<close>. The code: on a fresh store, \<open>createStep\<close> for
  the plan id \<^verbatim>\<open>ghost\<close>, which no plan has, succeeds and commits a step row whose
  \<open>plan_id\<close> names no plan. The schema declares the foreign key, but nothing switches its
  enforcement on and \<open>createStep\<close> does not look the plan up.
\<close>

theorem createStep_accepts_missing_plan:
  "getPlan initializeDatabase ''ghost'' = None \<and>
   createStep initializeDatabase ''a'' ''ghost'' ''first'' ''ca'' None ''t1'' =
     (Inr \<lparr>s_id = ''a'', plan_id = ''ghost'', s_description = ''first'',
            completion_condition = ''ca'', status = in_progress,
            completion_context = None, step_order = 1, s_created_at = ''t1''\<rparr>,
      \<lparr>plans = [],
       steps = [\<lparr>s_id = ''a'', plan_id = ''ghost'', s_description = ''first'',
                  completion_condition = ''ca'', status = in_progress,
                  completion_context = None, step_order = 1, s_created_at = ''t1''\<rparr>],
       txn = None, foreign_keys = False\<rparr>)"
  by (simp add: store_defs)

end
